theory Spec2Isabelle
  imports Complex_Main "HOL-Library.AList"
begin

section \<open>Python values and exceptions\<close>

text \<open>
  The exceptions that the modelled code, or the library calls it makes, can raise.
\<close>

datatype error = ValueError | TypeError | IndexError

text \<open>
  The Python objects that can be stored in a field of a calibration record: the fields
  are dynamically typed and the constructor does not check them. A dict is an
  association list in insertion order.
\<close>

datatype pyval =
    PNone
  | PBool bool
  | PInt int
  | PFloat real
  | PStr string
  | PList "pyval list"
  | PDict "(pyval \<times> pyval) list"

subsection \<open>The builtin \<open>int(...)\<close>\<close>

text \<open>
  \<open>int(s)\<close> on a string: surrounding whitespace is stripped, one optional sign, then
  decimal digits, where a single underscore may stand between two digits. Anything else
  raises \<open>ValueError\<close>.
\<close>

definition is_space :: "char \<Rightarrow> bool" where
  "is_space c = (c \<in> set [CHR '' '', CHR 0x09, CHR 0x0A, CHR 0x0B, CHR 0x0C, CHR 0x0D])"

definition strip :: "string \<Rightarrow> string" where
  "strip s = rev (dropWhile is_space (rev (dropWhile is_space s)))"

definition is_digit :: "char \<Rightarrow> bool" where
  "is_digit c = (c \<in> set ''0123456789'')"

definition digit_val :: "char \<Rightarrow> int" where
  "digit_val c = int (of_char c) - 48"

fun digits_from :: "int \<Rightarrow> string \<Rightarrow> error + int" where
  "digits_from acc [] = Inr acc"
| "digits_from acc [c] =
     (if is_digit c then Inr (10 * acc + digit_val c) else Inl ValueError)"
| "digits_from acc (c # d # cs) =
     (if is_digit c then digits_from (10 * acc + digit_val c) (d # cs)
      else if c = CHR ''_'' \<and> is_digit d then digits_from (10 * acc + digit_val d) cs
      else Inl ValueError)"

definition int_of_digits :: "string \<Rightarrow> error + int" where
  "int_of_digits s =
     (case s of
        [] \<Rightarrow> Inl ValueError
      | c # cs \<Rightarrow> if is_digit c then digits_from (digit_val c) cs else Inl ValueError)"

definition int_of_str :: "string \<Rightarrow> error + int" where
  "int_of_str s =
     (case strip s of
        [] \<Rightarrow> Inl ValueError
      | c # cs \<Rightarrow>
          if c = CHR ''-'' then map_sum id uminus (int_of_digits cs)
          else if c = CHR ''+'' then int_of_digits cs
          else int_of_digits (c # cs))"

text \<open>
  \<open>int(x)\<close> on the other objects: an integer is kept, a boolean is 0 or 1, a float is
  truncated towards zero, and \<open>None\<close>, lists and dicts raise \<open>TypeError\<close>.
\<close>

fun py_int :: "pyval \<Rightarrow> error + int" where
  "py_int (PInt i) = Inr i"
| "py_int (PBool b) = Inr (if b then 1 else 0)"
| "py_int (PFloat r) = Inr (if 0 \<le> r then \<lfloor>r\<rfloor> else \<lceil>r\<rceil>)"
| "py_int (PStr s) = int_of_str s"
| "py_int PNone = Inl TypeError"
| "py_int (PList xs) = Inl TypeError"
| "py_int (PDict kvs) = Inl TypeError"

section \<open>The calibration record (\<open>cal_metadata.py\<close>)\<close>

text \<open>
  The class attributes all default to \<open>None\<close>; \<open>__init__\<close> assigns six of them
  unconditionally and \<open>register_map\<close> only under \<open>if register_map:\<close>.
\<close>

record CalibrationMetadata =
  name :: pyval
  pulse_schedule_name :: pyval
  x_values :: pyval
  series :: pyval
  exp_id :: pyval
  qubits :: pyval
  register_map :: pyval

text \<open>
  \<open>d[k] = v\<close> on a dict: an existing key keeps its position and gets the new value,
  a new key is appended. This is \<open>AList.update\<close>.

  The loop \<open>for key, value in register_map.items(): self.register_map[int(key)] = int(value)\<close>.
  Python evaluates the right-hand side of the assignment first, so \<open>int(value)\<close> runs
  before \<open>int(key)\<close>; the first failing call aborts the construction.
\<close>

fun coerce_items :: "(pyval \<times> pyval) list \<Rightarrow> (pyval \<times> pyval) list \<Rightarrow> error + (pyval \<times> pyval) list" where
  "coerce_items acc [] = Inr acc"
| "coerce_items acc ((key, value) # rest) =
     (case py_int value of
        Inl e \<Rightarrow> Inl e
      | Inr v \<Rightarrow>
          (case py_int key of
             Inl e \<Rightarrow> Inl e
           | Inr k \<Rightarrow> coerce_items (AList.update (PInt k) (PInt v) acc) rest))"

text \<open>
  The argument \<open>register_map\<close> is \<open>None\<close> or a dict, as its annotation says. Both
  \<open>None\<close> and the empty dict are falsy.
\<close>

definition init :: "pyval \<Rightarrow> pyval \<Rightarrow> pyval \<Rightarrow> pyval \<Rightarrow> pyval \<Rightarrow> pyval \<Rightarrow>
    (pyval \<times> pyval) list option \<Rightarrow> error + CalibrationMetadata" where
  "init name' pulse_schedule_name' x_values' series' exp_id' qubits' register_map' =
     (let self = \<lparr> name = name', pulse_schedule_name = pulse_schedule_name',
                   x_values = x_values', series = series', exp_id = exp_id',
                   qubits = qubits', register_map = PNone \<rparr>
      in case register_map' of
           None \<Rightarrow> Inr self
         | Some items \<Rightarrow>
             if items = [] then Inr self
             else (case coerce_items [] items of
                     Inl e \<Rightarrow> Inl e
                   | Inr d \<Rightarrow> Inr (self\<lparr>register_map := PDict d\<rparr>)))"

text \<open>
  \<open>to_dict\<close> builds a dict literal: the seven keys are inserted in the order written.
\<close>

definition dict_literal :: "('k \<times> 'v) list \<Rightarrow> ('k \<times> 'v) list" where
  "dict_literal kvs = foldl (\<lambda>d (k, v). AList.update k v d) [] kvs"

definition to_dict :: "CalibrationMetadata \<Rightarrow> (string \<times> pyval) list" where
  "to_dict self = dict_literal
     [(''name'', name self),
      (''series'', series self),
      (''x_values'', x_values self),
      (''pulse_schedule_name'', pulse_schedule_name self),
      (''exp_id'', exp_id self),
      (''qubits'', qubits self),
      (''register_map'', register_map self)]"

text \<open>The dict that the loop builds when every call of \<open>int\<close> succeeds.\<close>

definition coerced :: "(pyval \<times> pyval) list \<Rightarrow> (pyval \<times> pyval) list" where
  "coerced items = map (\<lambda>(k, v). (PInt (projr (py_int k)), PInt (projr (py_int v)))) items"

section \<open>Floating-point values of numpy\<close>

text \<open>
  The arithmetic of numpy's float64 is idealised to the real numbers. The values that
  are not real numbers are kept apart: numpy does not raise on a division by zero, it
  returns an infinity (and \<open>0 * inf\<close> is \<open>nan\<close>). The sign of a zero is not modelled.
\<close>

datatype npfloat = Fin real | PInf | NInf | NaN

text \<open>
  \<open>np.abs\<close>, the reciprocal \<open>1 / r\<close> of a float64 (division by zero gives \<open>inf\<close> with
  a warning, it does not raise), and the product of an integer with a float64.
\<close>

fun np_abs :: "npfloat \<Rightarrow> npfloat" where
  "np_abs (Fin r) = Fin \<bar>r\<bar>"
| "np_abs PInf = PInf"
| "np_abs NInf = PInf"
| "np_abs NaN = NaN"

definition np_recip :: "real \<Rightarrow> npfloat" where
  "np_recip r = (if r = 0 then PInf else Fin (1 / r))"

fun np_scale :: "int \<Rightarrow> npfloat \<Rightarrow> npfloat" where
  "np_scale k (Fin v) = Fin (real_of_int k * v)"
| "np_scale k PInf = (if k = 0 then NaN else if 0 < k then PInf else NInf)"
| "np_scale k NInf = (if k = 0 then NaN else if 0 < k then NInf else PInf)"
| "np_scale k NaN = NaN"

section \<open>The numpy functions used by \<open>_freq_guess\<close>\<close>

text \<open>
  \<open>np.mean\<close> is the sum divided by the number of elements. \<open>np.fft.fft\<close> is the discrete
  Fourier transform \<open>A[k] = \<Sum>m. a[m] * exp (- 2 \<pi> i m k / n)\<close>; the factor
  \<open>exp (- 2 \<pi> i j / n)\<close> is \<open>twiddle n j\<close>.
\<close>

definition mean :: "real list \<Rightarrow> real" where
  "mean a = sum_list a / real (length a)"

definition twiddle :: "nat \<Rightarrow> nat \<Rightarrow> complex" where
  "twiddle n j = cis (- (2 * pi * real j / real n))"

definition fft :: "real list \<Rightarrow> complex list" where
  "fft a = map (\<lambda>k. \<Sum>m\<leftarrow>[0..<length a]. of_real (a ! m) * twiddle (length a) (m * k))
             [0..<length a]"

text \<open>
  \<open>np.fft.fftfreq(n, d)\<close> is the list \<open>[0, 1, ..., (n - 1) // 2, - (n // 2), ..., - 1]\<close>
  multiplied by \<open>val = 1.0 / (n * d)\<close>. In Python's integer arithmetic
  \<open>(n - 1) // 2 + 1 = (n + 1) // 2\<close>, also for \<open>n = 0\<close>.
\<close>

definition fftfreq :: "nat \<Rightarrow> real \<Rightarrow> npfloat list" where
  "fftfreq n d =
     (let val = np_recip (real n * d)
      in map (\<lambda>k. np_scale k val)
           (map int [0..<(n + 1) div 2] @ map (\<lambda>j. int j - int (n div 2)) [0..<n div 2]))"

text \<open>
  \<open>np.argmax\<close> returns the index of the first maximum: a later element replaces the best
  one only when it is strictly greater. It is called here on a list that is never empty
  (the slice \<open>fft_data[0:len(fft_freq) // 2]\<close> of at least one bin).
\<close>

fun argmax_from :: "real \<Rightarrow> nat \<Rightarrow> nat \<Rightarrow> real list \<Rightarrow> nat" where
  "argmax_from best pos i [] = pos"
| "argmax_from best pos i (v # vs) =
     (if best < v then argmax_from v i (Suc i) vs else argmax_from best pos (Suc i) vs)"

definition argmax :: "real list \<Rightarrow> nat" where
  "argmax vs = argmax_from (hd vs) 0 1 (tl vs)"

text \<open>
  \<open>np.convolve(a, v, mode)\<close>: the full convolution is \<open>c[k] = \<Sum>j. a[j] * v[k - j]\<close>, of
  length \<open>len(a) + len(v) - 1\<close>. The arguments are swapped when \<open>v\<close> is the longer one,
  an empty argument raises \<open>ValueError\<close>, and mode \<open>'same'\<close> keeps \<open>max(len(a), len(v))\<close>
  elements, of which \<open>len(v) // 2\<close> are boundary elements on the left.
\<close>

definition convolve_full :: "real list \<Rightarrow> real list \<Rightarrow> real list" where
  "convolve_full a v =
     map (\<lambda>k. \<Sum>j\<leftarrow>[0..<length a]. if j \<le> k \<and> k - j < length v then a ! j * v ! (k - j) else 0)
       [0..<length a + length v - 1]"

definition convolve_same :: "real list \<Rightarrow> real list \<Rightarrow> error + real list" where
  "convolve_same a v =
     (let a' = (if length a < length v then v else a);
          v' = (if length a < length v then a else v)
      in if v' = [] then Inl ValueError
         else Inr (take (length a') (drop (length v' - 1 - length v' div 2) (convolve_full a' v'))))"

section \<open>\<open>scipy.signal.argrelmin\<close>\<close>

text \<open>
  \<open>argrelmin(data, order)\<close> is \<open>argrelextrema(data, np.less, order=order, mode='clip')\<close>.
  Its worker \<open>_boolrelextrema\<close> raises \<open>ValueError('Order must be an int >= 1')\<close> when
  \<open>order < 1\<close>. Otherwise it starts from a mask that is true everywhere and, for
  \<open>shift = 1, ..., order\<close>, keeps the indices \<open>i\<close> with \<open>data[i] < data[i + shift]\<close> and
  \<open>data[i] < data[i - shift]\<close>, where an index outside the array is clipped to the nearest
  end; it stops early once the mask is false everywhere. The result is the list of the
  indices where the mask is true.
\<close>

definition clip_take :: "real list \<Rightarrow> int \<Rightarrow> real" where
  "clip_take data i = data ! nat (max 0 (min (int (length data) - 1) i))"

definition shift_step :: "real list \<Rightarrow> nat \<Rightarrow> bool list \<Rightarrow> bool list" where
  "shift_step data shift results =
     map (\<lambda>i. results ! i \<and> data ! i < clip_take data (int i + int shift)
                          \<and> data ! i < clip_take data (int i - int shift))
       [0..<length data]"

fun boolrelextrema :: "real list \<Rightarrow> nat \<Rightarrow> nat \<Rightarrow> bool list \<Rightarrow> bool list" where
  "boolrelextrema data shift 0 results = results"
| "boolrelextrema data shift (Suc remaining) results =
     (let results' = shift_step data shift results
      in if True \<notin> set results' then results'
         else boolrelextrema data (Suc shift) remaining results')"

definition nonzero :: "bool list \<Rightarrow> nat list" where
  "nonzero bs = filter (\<lambda>i. bs ! i) [0..<length bs]"

definition argrelmin :: "real list \<Rightarrow> nat \<Rightarrow> error + nat list" where
  "argrelmin data order' =
     (if order' < 1 then Inl ValueError
      else Inr (nonzero (boolrelextrema data 1 order' (replicate (length data) True))))"

section \<open>The frequency estimator \<open>_freq_guess\<close> (\<open>trigonometric.py\<close>)\<close>

text \<open>
  Lines 25 to 29: the mean is subtracted, the spectrum and the frequency bins are computed,
  and \<open>f0_guess\<close> is the absolute value of the frequency of the largest magnitude among
  the first \<open>len(fft_freq) // 2\<close> bins.
\<close>

definition f0_guess :: "real list \<Rightarrow> real list \<Rightarrow> npfloat" where
  "f0_guess xvals yvals =
     (let fft_data = fft (map (\<lambda>y. y - mean yvals) yvals);
          fft_freq = fftfreq (length xvals) (xvals ! 1 - xvals ! 0)
      in np_abs (fft_freq ! argmax (map cmod (take (length fft_freq div 2) fft_data))))"

text \<open>
  Lines 33 to 38, the branch taken when \<open>f0_guess == 0\<close>. \<open>int(len(xvals) / 4)\<close> is
  \<open>len(xvals) div 4\<close>. The index \<open>xvals[peaks[0]]\<close> raises \<open>IndexError\<close> when it is out
  of range, which can only happen when the two arrays differ in length.
\<close>

definition fallback :: "real list \<Rightarrow> real list \<Rightarrow> error + npfloat" where
  "fallback xvals yvals =
     (case convolve_same yvals [0.5, 0.5] of
        Inl e \<Rightarrow> Inl e
      | Inr smoothed \<Rightarrow>
          (case argrelmin smoothed (length xvals div 4) of
             Inl e \<Rightarrow> Inl e
           | Inr peaks \<Rightarrow>
               if length peaks = 0 \<or> 4 < length peaks then Inr (Fin 0)
               else if length xvals \<le> peaks ! 0 then Inl IndexError
               else Inr (np_recip (2 * xvals ! (peaks ! 0)))))"

text \<open>
  The whole function. \<open>np.fft.fft\<close> raises \<open>ValueError\<close> on an empty array, and
  \<open>xvals[1]\<close> raises \<open>IndexError\<close> when there are fewer than two x values.
\<close>

definition freq_guess :: "real list \<Rightarrow> real list \<Rightarrow> error + npfloat" where
  "freq_guess xvals yvals =
     (if yvals = [] then Inl ValueError
      else if length xvals < 2 then Inl IndexError
      else if f0_guess xvals yvals = Fin 0 then fallback xvals yvals
      else Inr (f0_guess xvals yvals))"

section \<open>The cosine model (\<open>trigonometric.py\<close>)\<close>

text \<open>
  \<open>np.linspace(start, stop, num)\<close> with the default \<open>endpoint=True\<close>: the values
  \<open>i * step + start\<close> with \<open>step = (stop - start) / (num - 1)\<close>, and the last one is then
  overwritten with \<open>stop\<close> when \<open>num > 1\<close>.
\<close>

definition linspace :: "real \<Rightarrow> real \<Rightarrow> nat \<Rightarrow> real list" where
  "linspace start stop num =
     (let step = (stop - start) / real (num - 1);
          y = map (\<lambda>i. real i * step + start) [0..<num]
      in if 1 < num then y[num - 1 := stop] else y)"

text \<open>
  The builtin \<open>max(0, v)\<close> returns its second argument only when that is greater than the
  first: a \<open>nan\<close> or a negative value gives \<open>0\<close>. \<open>np.max\<close> folds the maximum over a
  non-empty array.
\<close>

fun py_max0 :: "npfloat \<Rightarrow> npfloat" where
  "py_max0 (Fin r) = (if 0 < r then Fin r else Fin 0)"
| "py_max0 PInf = PInf"
| "py_max0 NInf = Fin 0"
| "py_max0 NaN = Fin 0"

definition np_max :: "real list \<Rightarrow> real" where
  "np_max a = fold max (tl a) (hd a)"

text \<open>
  \<open>initial_guess\<close> is a generator: its body runs up to the first \<open>yield\<close> when the
  first vector is requested, so an exception of \<open>np.max\<close> (empty \<open>yvals\<close>) or of
  \<open>_freq_guess\<close> is raised before any vector is produced. Otherwise it yields one vector
  \<open>(a0, f0, phi, y_mean)\<close> for each of the ten phases.
\<close>

definition initial_guess :: "real list \<Rightarrow> real list \<Rightarrow> error + (real \<times> npfloat \<times> real \<times> real) list" where
  "initial_guess xvals yvals =
     (if yvals = [] then Inl ValueError
      else
        let y_mean = mean yvals;
            a0 = np_max (map abs yvals) - \<bar>y_mean\<bar>
        in case freq_guess xvals yvals of
             Inl e \<Rightarrow> Inl e
           | Inr f0 \<Rightarrow> Inr (map (\<lambda>phi. (a0, py_max0 f0, phi, y_mean)) (linspace (- pi) pi 10)))"


definition fit_boundary :: "real list \<Rightarrow> real list \<Rightarrow> (npfloat \<times> npfloat) list" where
  "fit_boundary xvals yvals = [(NInf, PInf), (Fin 0, PInf), (Fin (- pi), Fin pi), (NInf, PInf)]"

section \<open>The notions of the specification\<close>

text \<open>
  A valid input: two arrays of the same length, at least two samples, and x values that
  increase by the constant step \<open>x[1] - x[0] > 0\<close>.
\<close>

definition valid_input :: "real list \<Rightarrow> real list \<Rightarrow> bool" where
  "valid_input xvals yvals \<longleftrightarrow>
     length xvals = length yvals \<and> 2 \<le> length xvals \<and> 0 < xvals ! 1 - xvals ! 0 \<and>
     list_all (\<lambda>i. xvals ! Suc i - xvals ! i = xvals ! 1 - xvals ! 0) [0..<length xvals - 1]"

text \<open>The comparison \<open>v >= 0\<close> on a float64: true for \<open>inf\<close>, false for \<open>nan\<close>.\<close>

fun nonneg :: "npfloat \<Rightarrow> bool" where
  "nonneg (Fin r) = (0 \<le> r)"
| "nonneg PInf = True"
| "nonneg NInf = False"
| "nonneg NaN = False"

text \<open>
  The two-tap moving average with weights 0.5 and 0.5 and an output of the same length:
  the sample before the first one counts as zero.
\<close>

definition moving_average :: "real list \<Rightarrow> real list" where
  "moving_average ys =
     map (\<lambda>i. 0.5 * ys ! i + 0.5 * (if i = 0 then 0 else ys ! (i - 1))) [0..<length ys]"

text \<open>
  The local minima for a window of \<open>w\<close> samples on each side: an index qualifies when it is
  neither the first nor the last one and its value is strictly below every other value at
  distance at most \<open>w\<close>.
\<close>

definition window_minima :: "nat \<Rightarrow> real list \<Rightarrow> nat list" where
  "window_minima w data =
     filter (\<lambda>i. 1 \<le> i \<and> i + 1 < length data \<and>
                list_all (\<lambda>j. j = i \<or> data ! i < data ! j) [i - w..<min (length data) (i + w + 1)])
       [0..<length data]"

text \<open>
  The fallback of the specification: smooth, find the local minima with a window of
  \<open>len(x) // 4\<close>, answer 0 for no minimum or more than four, and otherwise
  \<open>1 / (2 * x[first minimum])\<close>. The specification has no failure in these steps: they
  always give a value.
\<close>

definition fallback_steps :: "real list \<Rightarrow> real list \<Rightarrow> npfloat" where
  "fallback_steps xvals yvals =
     (let peaks = window_minima (length xvals div 4) (moving_average yvals) in
      if length peaks = 0 \<or> 4 < length peaks then Fin 0
      else np_recip (2 * xvals ! (peaks ! 0)))"

text \<open>
  Five samples of \<open>4 * cos (4 * \<pi> * n / 5)\<close>: their mean is zero and their spectrum is zero
  in the bins 0 and 1.
\<close>

definition y5 :: "real list" where
  "y5 = [4, - 1 - sqrt 5, sqrt 5 - 1, sqrt 5 - 1, - 1 - sqrt 5]"

section \<open>Properties of the calibration record\<close>

lemma coerce_items_fails_iff:
  "isl (coerce_items acc items) \<longleftrightarrow> (\<exists>(k, v) \<in> set items. isl (py_int k) \<or> isl (py_int v))"
  by (induction acc items rule: coerce_items.induct) (auto split: sum.splits)

lemma coerce_items_result:
  "coerce_items acc items = Inr d \<Longrightarrow>
     d = foldl (\<lambda>d (k, v). AList.update k v d) acc (coerced items)"
  by (induction acc items arbitrary: d rule: coerce_items.induct)
     (auto simp: coerced_def split: sum.splits)

lemma map_of_foldl_update:
  "map_of (foldl (\<lambda>d (k, v). AList.update k v d) acc kvs) = map_of (rev kvs @ acc)"
  by (induction kvs arbitrary: acc) (auto simp: update_conv')

lemma keys_foldl_update:
  "set (map fst (foldl (\<lambda>d (k, v). AList.update k v d) acc kvs)) = set (map fst acc) \<union> set (map fst kvs)"
  by (induction kvs arbitrary: acc) (simp_all add: dom_update case_prod_beta Un_ac insert_commute)

lemma distinct_foldl_update:
  "distinct (map fst acc) \<Longrightarrow> distinct (map fst (foldl (\<lambda>d (k, v). AList.update k v d) acc kvs))"
  by (induction kvs arbitrary: acc) (auto simp: distinct_update)

lemma set_foldl_update:
  "set (foldl (\<lambda>d (k, v). AList.update k v d) acc kvs) \<subseteq> set acc \<union> set kvs"
proof (induction kvs arbitrary: acc)
  case Nil
  show ?case by simp
next
  case (Cons kv kvs)
  have "set (AList.update (fst kv) (snd kv) acc) \<subseteq> insert kv (set acc)"
    by (induction acc) auto
  with Cons [of "AList.update (fst kv) (snd kv) acc"] show ?case
    by (auto simp: case_prod_beta)
qed

text \<open>
  C5. With a non-empty \<open>register_map\<close>, the construction raises exactly when \<open>int\<close>
  fails on some key or some value. Otherwise the stored register map is a dict whose
  entries are pairs of integers, each the coercion of an entry of the argument, with one
  entry for every coerced key, holding the value of the last item with that key.
\<close>

theorem register_map_coercion:
  assumes "items \<noteq> []"
  shows "(isl (init n p x s e q (Some items)) \<longleftrightarrow>
            (\<exists>(k, v) \<in> set items. isl (py_int k) \<or> isl (py_int v))) \<and>
         (\<forall>self. init n p x s e q (Some items) = Inr self \<longrightarrow>
            (\<exists>d. register_map self = PDict d \<and>
                 set d \<subseteq> set (coerced items) \<and>
                 distinct (map fst d) \<and>
                 set (map fst d) = set (map fst (coerced items)) \<and>
                 map_of d = map_of (rev (coerced items))))"
proof (intro conjI allI impI)
  show "isl (init n p x s e q (Some items)) \<longleftrightarrow>
          (\<exists>(k, v) \<in> set items. isl (py_int k) \<or> isl (py_int v))"
  proof -
    have "isl (init n p x s e q (Some items)) = isl (coerce_items [] items)"
      using assms by (cases "coerce_items [] items") (simp_all add: init_def)
    then show ?thesis
      by (simp only: coerce_items_fails_iff)
  qed
next
  fix self
  assume ok: "init n p x s e q (Some items) = Inr self"
  then obtain d where d: "coerce_items [] items = Inr d" and r: "register_map self = PDict d"
    using assms by (auto simp: init_def split: sum.splits)
  have eq: "d = foldl (\<lambda>d (k, v). AList.update k v d) [] (coerced items)"
    by (rule coerce_items_result [OF d])
  have "set d \<subseteq> set (coerced items)"
    using set_foldl_update [of "[]" "coerced items"] by (simp add: eq)
  moreover have "distinct (map fst d)"
    unfolding eq by (rule distinct_foldl_update) simp
  moreover have "set (map fst d) = set (map fst (coerced items))"
    unfolding eq keys_foldl_update by simp
  moreover have "map_of d = map_of (rev (coerced items))"
    unfolding eq map_of_foldl_update by simp
  ultimately show "\<exists>d. register_map self = PDict d \<and>
                 set d \<subseteq> set (coerced items) \<and>
                 distinct (map fst d) \<and>
                 set (map fst d) = set (map fst (coerced items)) \<and>
                 map_of d = map_of (rev (coerced items))"
    using r by blast
qed

lemma init_string_keys:
  "init n p x s e q (Some [(PStr ''0'', PStr ''3''), (PStr ''1'', PStr ''5'')]) =
     Inr \<lparr> name = n, pulse_schedule_name = p, x_values = x, series = s, exp_id = e,
           qubits = q, register_map = PDict [(PInt 0, PInt 3), (PInt 1, PInt 5)] \<rparr>"
  by (simp add: init_def int_of_str_def strip_def is_space_def int_of_digits_def
      is_digit_def digit_val_def)

lemma init_bad_key:
  "init n p x s e q (Some [(PStr ''a'', PStr ''1'')]) = Inl ValueError"
  by (simp add: init_def int_of_str_def strip_def is_space_def int_of_digits_def
      is_digit_def digit_val_def)

theorem register_map_coercion_witness:
  "[(PStr ''a'', PStr ''1'')] \<noteq> [] \<and>
   isl (init PNone PNone PNone PNone PNone PNone (Some [(PStr ''a'', PStr ''1'')])) \<and>
   isl (py_int (PStr ''a'')) \<and>
   init PNone PNone PNone PNone PNone PNone
     (Some [(PStr ''0'', PStr ''3''), (PStr ''1'', PStr ''5'')]) =
     Inr \<lparr> name = PNone, pulse_schedule_name = PNone, x_values = PNone, series = PNone,
           exp_id = PNone, qubits = PNone,
           register_map = PDict [(PInt 0, PInt 3), (PInt 1, PInt 5)] \<rparr> \<and>
   map_of (to_dict \<lparr> name = PNone, pulse_schedule_name = PNone, x_values = PNone,
                     series = PNone, exp_id = PNone, qubits = PNone,
                     register_map = PDict [(PInt 0, PInt 3), (PInt 1, PInt 5)] \<rparr>)
     ''register_map'' = Some (PDict [(PInt 0, PInt 3), (PInt 1, PInt 5)])"
  using register_map_coercion [of "[(PStr ''a'', PStr ''1'')]" PNone PNone PNone PNone PNone PNone]
    register_map_coercion [of "[(PStr ''0'', PStr ''3''), (PStr ''1'', PStr ''5'')]"
      PNone PNone PNone PNone PNone PNone]
  by (simp add: init_string_keys init_bad_key to_dict_def dict_literal_def
      int_of_str_def strip_def is_space_def int_of_digits_def is_digit_def)

text \<open>
  C6. The exported dict has the seven keys in the order of the literal, each with the
  value stored in the record, and two exports of the same record are equal.
\<close>

theorem to_dict_export:
  "map fst (to_dict self) =
     [''name'', ''series'', ''x_values'', ''pulse_schedule_name'', ''exp_id'', ''qubits'',
      ''register_map''] \<and>
   map snd (to_dict self) =
     [name self, series self, x_values self, pulse_schedule_name self, exp_id self,
      qubits self, register_map self] \<and>
   (\<forall>first second. first = to_dict self \<and> second = to_dict self \<longrightarrow>
      map fst first = map fst second \<and> map snd first = map snd second \<and> first = second)"
  by (simp add: to_dict_def dict_literal_def)

theorem to_dict_export_witness:
  "to_dict \<lparr> name = PStr ''rabi'', pulse_schedule_name = PNone, x_values = PNone,
             series = PInt 1, exp_id = PNone, qubits = PList [PInt 0],
             register_map = PDict [(PInt 0, PInt 3)] \<rparr> =
     [(''name'', PStr ''rabi''), (''series'', PInt 1), (''x_values'', PNone),
      (''pulse_schedule_name'', PNone), (''exp_id'', PNone), (''qubits'', PList [PInt 0]),
      (''register_map'', PDict [(PInt 0, PInt 3)])]"
  using to_dict_export [of "\<lparr> name = PStr ''rabi'', pulse_schedule_name = PNone,
             x_values = PNone, series = PInt 1, exp_id = PNone, qubits = PList [PInt 0],
             register_map = PDict [(PInt 0, PInt 3)] \<rparr>"]
  by (simp add: to_dict_def dict_literal_def)

text \<open>
  C9. A falsy \<open>register_map\<close> argument (\<open>None\<close> or the empty dict) skips the coercion
  branch: the construction succeeds, the record's register map stays \<open>None\<close>, and the
  export reports \<open>None\<close> under the key \<open>register_map\<close>.
\<close>

theorem empty_register_map_absent:
  "(\<exists>self. init n p x s e q (Some []) = Inr self \<and> register_map self = PNone \<and>
      map_of (to_dict self) ''register_map'' = Some PNone) \<and>
   init n p x s e q (Some []) = init n p x s e q None"
  by (simp add: init_def to_dict_def dict_literal_def)

section \<open>Properties of the cosine model\<close>

text \<open>
  C7. The bounds are the same list for every pair of inputs: unbounded amplitude and
  offset, a frequency in \<open>[0, \<infinity>)\<close>, a phase in \<open>[-\<pi>, \<pi>]\<close>.
\<close>

theorem fit_boundary_fixed:
  "fit_boundary xvals yvals = fit_boundary xvals' yvals' \<and>
   fit_boundary xvals yvals =
     [(NInf, PInf), (Fin 0, PInf), (Fin (- pi), Fin pi), (NInf, PInf)]"
  by (simp add: fit_boundary_def)


section \<open>Properties of the spectral guess\<close>

lemma length_fft: "length (fft a) = length a"
  by (simp add: fft_def)

lemma length_fftfreq: "length (fftfreq n d) = n"
  by (simp add: fftfreq_def Let_def)

lemma fftfreq_nth:
  "k < (n + 1) div 2 \<Longrightarrow> fftfreq n d ! k = np_scale (int k) (np_recip (real n * d))"
  by (simp add: fftfreq_def Let_def nth_append)

lemma argmax_from_bound:
  "pos < i \<Longrightarrow> argmax_from best pos i vs < i + length vs"
proof (induction vs arbitrary: best pos i)
  case Nil
  then show ?case by simp
next
  case (Cons v vs)
  have "argmax_from v i (Suc i) vs < Suc i + length vs"
    by (rule Cons.IH) simp
  moreover have "argmax_from best pos (Suc i) vs < Suc i + length vs"
    by (rule Cons.IH) (use Cons.prems in simp)
  ultimately show ?case by simp
qed

lemma argmax_bound: "vs \<noteq> [] \<Longrightarrow> argmax vs < length vs"
  using argmax_from_bound [of 0 1 "hd vs" "tl vs"] by (cases vs) (simp_all add: argmax_def)

lemma f0_guess_bin:
  assumes "2 \<le> length xvals" "yvals \<noteq> []"
  shows "\<exists>k < length xvals div 2.
           k = argmax (map cmod (take (length xvals div 2) (fft (map (\<lambda>y. y - mean yvals) yvals)))) \<and>
           f0_guess xvals yvals =
             np_abs (np_scale (int k) (np_recip (real (length xvals) * (xvals ! 1 - xvals ! 0))))"
proof -
  let ?sp = "map cmod (take (length xvals div 2) (fft (map (\<lambda>y. y - mean yvals) yvals)))"
  have "?sp \<noteq> []"
    using assms by (simp add: fft_def)
  then have "argmax ?sp < length ?sp"
    by (rule argmax_bound)
  then have lt: "argmax ?sp < length xvals div 2"
    by simp
  then have "argmax ?sp < (length xvals + 1) div 2"
    by arith
  then show ?thesis
    using lt by (simp add: f0_guess_def Let_def length_fftfreq fftfreq_nth)
qed

lemma f0_guess_finite:
  assumes "2 \<le> length xvals" "yvals \<noteq> []" "xvals ! 1 \<noteq> xvals ! 0"
  shows "\<exists>r. 0 \<le> r \<and> f0_guess xvals yvals = Fin r"
proof -
  obtain k where "f0_guess xvals yvals =
      np_abs (np_scale (int k) (np_recip (real (length xvals) * (xvals ! 1 - xvals ! 0))))"
    using f0_guess_bin [OF assms(1,2)] by blast
  moreover have "real (length xvals) * (xvals ! 1 - xvals ! 0) \<noteq> 0"
    using assms by auto
  ultimately show ?thesis
    by (simp add: np_recip_def)
qed

section \<open>The smoothing is the two-tap moving average\<close>

lemma two_tap_sum:
  assumes "k < n"
  shows "(\<Sum>j\<leftarrow>[0..<n]. if j \<le> k \<and> k - j < length [h0, h1] then ys ! j * [h0, h1] ! (k - j) else 0) =
         h0 * ys ! k + h1 * (if k = 0 then 0 else (ys :: real list) ! (k - 1))" (is "?lhs = ?rhs")
proof -
  have summand: "(if j \<le> k \<and> k - j < length [h0, h1] then ys ! j * [h0, h1] ! (k - j) else 0) =
        (if j = k then h0 * ys ! k else 0) + (if Suc j = k then h1 * ys ! j else 0)" for j
  proof -
    consider "j = k" | "Suc j = k" | "j < k" "Suc j < k" | "k < j"
      by arith
    then show ?thesis
    proof cases
      case 3
      then have "\<not> k - j < 2" by arith
      with 3 show ?thesis by simp
    qed (auto simp: mult.commute)
  qed
  have "?lhs = (\<Sum>j = 0..<n. (if j = k then h0 * ys ! k else 0) + (if Suc j = k then h1 * ys ! j else 0))"
    unfolding summand by (simp add: interv_sum_list_conv_sum_set_nat)
  also have "\<dots> = (\<Sum>j = 0..<n. if j = k then h0 * ys ! k else 0) +
                   (\<Sum>j = 0..<n. if Suc j = k then h1 * ys ! j else 0)"
    by (rule sum.distrib)
  also have "(\<Sum>j = 0..<n. if j = k then h0 * ys ! k else 0) = h0 * ys ! k"
    using assms by simp
  also have "(\<Sum>j = 0..<n. if Suc j = k then h1 * ys ! j else 0) =
             h1 * (if k = 0 then 0 else ys ! (k - 1))"
  proof (cases k)
    case 0
    then show ?thesis by simp
  next
    case (Suc k')
    then have "(\<Sum>j = 0..<n. if Suc j = k then h1 * ys ! j else 0) =
               (\<Sum>j = 0..<n. if j = k' then h1 * ys ! j else 0)"
      by simp
    also have "\<dots> = h1 * ys ! k'"
      using assms Suc by simp
    finally show ?thesis
      using Suc by simp
  qed
  finally show ?thesis .
qed

lemma convolve_full_two_tap:
  assumes "k < length ys"
  shows "convolve_full ys [h0, h1] ! k = h0 * ys ! k + h1 * (if k = 0 then 0 else ys ! (k - 1))"
proof -
  have "k < length [0..<length ys + length [h0, h1] - 1]"
    using assms by simp
  then have "convolve_full ys [h0, h1] ! k =
      (\<Sum>j\<leftarrow>[0..<length ys]. if j \<le> [0..<length ys + length [h0, h1] - 1] ! k \<and>
            [0..<length ys + length [h0, h1] - 1] ! k - j < length [h0, h1]
          then ys ! j * [h0, h1] ! ([0..<length ys + length [h0, h1] - 1] ! k - j) else 0)"
    unfolding convolve_full_def by (rule nth_map)
  moreover have "[0..<length ys + length [h0, h1] - 1] ! k = k"
    using assms by (simp add: nth_append)
  ultimately show ?thesis
    using two_tap_sum [OF assms, of h0 h1 ys] by (simp only:)
qed

lemma convolve_same_moving_average:
  assumes "2 \<le> length ys"
  shows "convolve_same ys [0.5, 0.5] = Inr (moving_average ys)"
proof -
  have "take (length ys) (convolve_full ys [0.5, 0.5]) = moving_average ys"
  proof (rule nth_equalityI)
    show "length (take (length ys) (convolve_full ys [0.5, 0.5])) = length (moving_average ys)"
      by (simp add: convolve_full_def moving_average_def)
  next
    fix k
    assume "k < length (take (length ys) (convolve_full ys [0.5, 0.5]))"
    then have k: "k < length ys"
      by simp
    then show "take (length ys) (convolve_full ys [0.5, 0.5]) ! k = moving_average ys ! k"
      by (simp add: convolve_full_two_tap moving_average_def)
  qed
  then show ?thesis
    using assms by (simp add: convolve_same_def)
qed

lemma length_moving_average: "length (moving_average ys) = length ys"
  by (simp add: moving_average_def)

lemma convolve_same_returns:
  assumes "a \<noteq> []" "v \<noteq> []"
  shows "\<exists>s. convolve_same a v = Inr s"
proof (cases "length a < length v")
  case True
  then show ?thesis
    using assms by (simp add: convolve_same_def)
next
  case False
  then show ?thesis
    using assms by (simp add: convolve_same_def)
qed

section \<open>\<open>argrelmin\<close> finds the local minima of the window\<close>

lemma length_shift_step: "length (shift_step data shift results) = length data"
  by (simp add: shift_step_def)

lemma boolrelextrema_nth:
  assumes "length results = length data" "i < length data"
  shows "boolrelextrema data shift remaining results ! i \<longleftrightarrow>
           results ! i \<and>
           (\<forall>s. shift \<le> s \<and> s < shift + remaining \<longrightarrow>
                data ! i < clip_take data (int i + int s) \<and>
                data ! i < clip_take data (int i - int s))"
  using assms
proof (induction remaining arbitrary: shift results)
  case 0
  then show ?case by simp
next
  case (Suc remaining)
  let ?r = "shift_step data shift results"
  have len: "length ?r = length data"
    by (rule length_shift_step)
  have ri: "?r ! i \<longleftrightarrow> results ! i \<and> data ! i < clip_take data (int i + int shift)
                          \<and> data ! i < clip_take data (int i - int shift)"
    using Suc.prems by (simp add: shift_step_def)
  show ?case
  proof (cases "True \<in> set ?r")
    case False
    then have "\<not> ?r ! i"
      using len Suc.prems(2) by (metis nth_mem)
    moreover have "boolrelextrema data shift (Suc remaining) results = ?r"
      using False by (simp add: Let_def)
    ultimately show ?thesis
      using ri by auto
  next
    case True
    then have "boolrelextrema data shift (Suc remaining) results =
                 boolrelextrema data (Suc shift) remaining ?r"
      by (simp add: Let_def)
    moreover have "(\<forall>s. shift \<le> s \<and> s < shift + Suc remaining \<longrightarrow> P s) \<longleftrightarrow>
           P shift \<and> (\<forall>s. Suc shift \<le> s \<and> s < Suc shift + remaining \<longrightarrow> P s)" for P
      by (metis Suc_leI add_Suc add_Suc_right le_neq_implies_less less_Suc_eq not_less_eq_eq order_refl le_add1 less_add_Suc1 Suc_leD)
    ultimately show ?thesis
      using Suc.IH [OF len Suc.prems(2), of "Suc shift"] ri by auto
  qed
qed

lemma length_boolrelextrema:
  "length results = length data \<Longrightarrow>
     length (boolrelextrema data shift remaining results) = length data"
  by (induction remaining arbitrary: shift results) (auto simp: Let_def length_shift_step)

lemma argrelmin_peaks:
  assumes "argrelmin data order' = Inr peaks"
  shows "1 \<le> order' \<and>
         peaks = filter (\<lambda>i. \<forall>s. 1 \<le> s \<and> s \<le> order' \<longrightarrow>
                      data ! i < clip_take data (int i + int s) \<and>
                      data ! i < clip_take data (int i - int s)) [0..<length data]"
proof -
  have ord: "1 \<le> order'"
    using assms by (auto simp: argrelmin_def split: if_splits)
  let ?b = "boolrelextrema data 1 order' (replicate (length data) True)"
  have peaks: "peaks = filter (\<lambda>i. ?b ! i) [0..<length ?b]"
    using assms ord by (auto simp: argrelmin_def nonzero_def)
  have len: "length ?b = length data"
    by (simp add: length_boolrelextrema)
  have "filter (\<lambda>i. ?b ! i) [0..<length data] =
        filter (\<lambda>i. \<forall>s. 1 \<le> s \<and> s \<le> order' \<longrightarrow>
                      data ! i < clip_take data (int i + int s) \<and>
                      data ! i < clip_take data (int i - int s)) [0..<length data]"
    by (rule filter_cong [OF refl]) (simp add: boolrelextrema_nth less_Suc_eq_le)
  then show ?thesis
    using ord peaks len by simp
qed

lemma argrelmin_interior:
  assumes "argrelmin data order' = Inr peaks" "p \<in> set peaks"
  shows "1 \<le> p \<and> p + 1 < length data"
proof -
  from argrelmin_peaks [OF assms(1)] assms(2)
  have p: "p < length data" and ord: "1 \<le> order'"
    and lo: "data ! p < clip_take data (int p + 1)" "data ! p < clip_take data (int p - 1)"
    by auto
  have "p \<noteq> 0"
  proof
    assume "p = 0"
    then show False
      using lo(2) by (simp add: clip_take_def)
  qed
  moreover have "p + 1 \<noteq> length data"
  proof
    assume "p + 1 = length data"
    then have "length data = p + 1"
      by simp
    then have "clip_take data (int p + 1) = data ! p"
      by (simp add: clip_take_def)
    then show False
      using lo(1) by simp
  qed
  ultimately show ?thesis
    using p by arith
qed

lemma clip_take_up:
  "i < length data \<Longrightarrow> clip_take data (int i + int s) = data ! min (length data - 1) (i + s)"
proof -
  assume "i < length data"
  then have "nat (max 0 (min (int (length data) - 1) (int i + int s))) = min (length data - 1) (i + s)"
    by (auto simp: min_def max_def)
  then show ?thesis
    by (simp only: clip_take_def)
qed

lemma clip_take_down:
  "i < length data \<Longrightarrow> clip_take data (int i - int s) = data ! (i - s)"
proof -
  assume "i < length data"
  then have "nat (max 0 (min (int (length data) - 1) (int i - int s))) = i - s"
    by (auto simp: min_def max_def)
  then show ?thesis
    by (simp only: clip_take_def)
qed

lemma window_condition:
  assumes "i < length data" "1 \<le> w"
  shows "(\<forall>s. 1 \<le> s \<and> s \<le> w \<longrightarrow>
            data ! i < clip_take data (int i + int s) \<and>
            data ! i < clip_take data (int i - int s)) \<longleftrightarrow>
         (1 \<le> i \<and> i + 1 < length data \<and>
          list_all (\<lambda>j. j = i \<or> data ! i < data ! j) [i - w..<min (length data) (i + w + 1)])"
    (is "?code \<longleftrightarrow> ?spec")
proof
  assume code: ?code
  then have one: "data ! i < data ! min (length data - 1) (i + 1)" "data ! i < data ! (i - 1)"
    using assms clip_take_up [OF assms(1), of 1] clip_take_down [OF assms(1), of 1] by auto
  have "i \<noteq> 0"
  proof
    assume "i = 0"
    then show False
      using one(2) by simp
  qed
  moreover have "i + 1 \<noteq> length data"
  proof
    assume "i + 1 = length data"
    then have "min (length data - 1) (i + 1) = i"
      by arith
    then show False
      using one(1) by simp
  qed
  ultimately have interior: "1 \<le> i" "i + 1 < length data"
    using assms(1) by arith+
  have "j = i \<or> data ! i < data ! j" if "i - w \<le> j" "j < length data" "j < i + w + 1" for j
  proof (cases "j = i")
    case True
    then show ?thesis by simp
  next
    case False
    show ?thesis
    proof (cases "i < j")
      case True
      then have "1 \<le> j - i \<and> j - i \<le> w"
        using that by arith
      then have "data ! i < clip_take data (int i + int (j - i))"
        using code by blast
      then have "data ! i < data ! min (length data - 1) (i + (j - i))"
        unfolding clip_take_up [OF assms(1)] .
      moreover have "min (length data - 1) (i + (j - i)) = j"
        using True that by arith
      ultimately show ?thesis
        by simp
    next
      case below: False
      then have "1 \<le> i - j \<and> i - j \<le> w"
        using that False by arith
      then have "data ! i < clip_take data (int i - int (i - j))"
        using code by blast
      then have "data ! i < data ! (i - (i - j))"
        unfolding clip_take_down [OF assms(1)] .
      moreover have "i - (i - j) = j"
        using below by arith
      ultimately show ?thesis
        by simp
    qed
  qed
  then show ?spec
    using interior by (auto simp: list_all_iff)
next
  assume spec: ?spec
  then have interior: "1 \<le> i" "i + 1 < length data"
    and win: "\<And>j. i - w \<le> j \<Longrightarrow> j < length data \<Longrightarrow> j < i + w + 1 \<Longrightarrow> j \<noteq> i \<Longrightarrow> data ! i < data ! j"
    by (auto simp: list_all_iff)
  show ?code
  proof (intro allI impI conjI)
    fix s
    assume s: "1 \<le> s \<and> s \<le> w"
    let ?j = "min (length data - 1) (i + s)"
    have "i - w \<le> ?j" "?j < length data" "?j < i + w + 1" "?j \<noteq> i"
      using s interior by (auto simp: min_def)
    then have "data ! i < data ! ?j"
      by (rule win)
    then show "data ! i < clip_take data (int i + int s)"
      by (simp add: clip_take_up [OF assms(1)])
    have "i - w \<le> i - s" "i - s < length data" "i - s < i + w + 1" "i - s \<noteq> i"
      using s interior assms(1) by arith+
    then have "data ! i < data ! (i - s)"
      by (rule win)
    then show "data ! i < clip_take data (int i - int s)"
      by (simp add: clip_take_down [OF assms(1)])
  qed
qed

lemma argrelmin_window_minima:
  "argrelmin data w = (if w < 1 then Inl ValueError else Inr (window_minima w data))"
proof (cases "w < 1")
  case True
  then show ?thesis
    by (simp add: argrelmin_def)
next
  case False
  then obtain peaks where p: "argrelmin data w = Inr peaks"
    by (auto simp: argrelmin_def)
  have w: "1 \<le> w"
    using False by simp
  have "filter (\<lambda>i. \<forall>s. 1 \<le> s \<and> s \<le> w \<longrightarrow>
                      data ! i < clip_take data (int i + int s) \<and>
                      data ! i < clip_take data (int i - int s)) [0..<length data] =
        window_minima w data"
    unfolding window_minima_def
  proof (rule filter_cong [OF refl])
    fix i
    assume "i \<in> set [0..<length data]"
    then have "i < length data"
      by simp
    then show "(\<forall>s. 1 \<le> s \<and> s \<le> w \<longrightarrow>
                      data ! i < clip_take data (int i + int s) \<and>
                      data ! i < clip_take data (int i - int s)) =
          (1 \<le> i \<and> i + 1 < length data \<and>
           list_all (\<lambda>j. j = i \<or> data ! i < data ! j) [i - w..<min (length data) (i + w + 1)])"
      using w by (rule window_condition)
  qed
  then have "peaks = window_minima w data"
    using argrelmin_peaks [OF p] by simp
  then show ?thesis
    using p False by simp
qed

lemma window_minima_interior:
  "p \<in> set (window_minima w data) \<Longrightarrow> 1 \<le> p \<and> p + 1 < length data"
  by (simp add: window_minima_def)

lemma fallback_eq:
  assumes "length yvals = length xvals" "4 \<le> length xvals"
  shows "fallback xvals yvals = Inr (fallback_steps xvals yvals)"
proof -
  define peaks where "peaks = window_minima (length xvals div 4) (moving_average yvals)"
  have "2 \<le> length yvals"
    using assms by simp
  then have sm: "convolve_same yvals [0.5, 0.5] = Inr (moving_average yvals)"
    by (rule convolve_same_moving_average)
  have w: "\<not> length xvals div 4 < 1"
    using assms(2) by arith
  have fb: "fallback xvals yvals =
      (if length peaks = 0 \<or> 4 < length peaks then Inr (Fin 0)
       else if length xvals \<le> peaks ! 0 then Inl IndexError
       else Inr (np_recip (2 * xvals ! (peaks ! 0))))"
    unfolding fallback_def sm argrelmin_window_minima peaks_def using w by simp
  have "peaks ! 0 < length xvals" if "peaks \<noteq> []"
  proof -
    have "peaks ! 0 \<in> set peaks"
      using that by simp
    then have "peaks ! 0 \<in> set (window_minima (length xvals div 4) (moving_average yvals))"
      unfolding peaks_def .
    then have "peaks ! 0 + 1 < length (moving_average yvals)"
      by (rule window_minima_interior [THEN conjunct2])
    then show ?thesis
      using assms by (simp add: length_moving_average)
  qed
  then have "peaks = [] \<or> \<not> length xvals \<le> peaks ! 0"
    by (cases "peaks = []") simp_all
  then show ?thesis
    unfolding fb fallback_steps_def peaks_def [symmetric] by (cases "peaks = []") simp_all
qed

section \<open>Valid inputs\<close>

lemma valid_inputD:
  assumes "valid_input xvals yvals"
  shows "length xvals = length yvals" "2 \<le> length xvals" "0 < xvals ! 1 - xvals ! 0"
  using assms unfolding valid_input_def by blast+

lemma valid_input_nth:
  assumes "valid_input xvals yvals" "i < length xvals"
  shows "xvals ! i = xvals ! 0 + real i * (xvals ! 1 - xvals ! 0)"
  using assms(2)
proof (induction i)
  case 0
  then show ?case by simp
next
  case (Suc i)
  then have "i < length xvals - 1"
    by arith
  then have "i \<in> set [0..<length xvals - 1]"
    by simp
  moreover have "\<forall>j \<in> set [0..<length xvals - 1].
      xvals ! Suc j - xvals ! j = xvals ! 1 - xvals ! 0"
    using assms(1) unfolding valid_input_def list_all_iff by blast
  ultimately have "xvals ! Suc i - xvals ! i = xvals ! 1 - xvals ! 0"
    by blast
  moreover have "xvals ! i = xvals ! 0 + real i * (xvals ! 1 - xvals ! 0)"
    using Suc by simp
  ultimately show ?case
    by (simp add: algebra_simps)
qed

lemma valid_input_increasing:
  assumes "valid_input xvals yvals" "1 \<le> p" "p < length xvals"
  shows "xvals ! 0 < xvals ! p"
proof -
  have "0 < xvals ! 1 - xvals ! 0"
    by (rule valid_inputD [OF assms(1)])
  then have "0 < real p * (xvals ! 1 - xvals ! 0)"
    using assms(2) by simp
  then show ?thesis
    using valid_input_nth [OF assms(1) assms(3)] by simp
qed

lemma f0_guess_short:
  assumes "2 \<le> length xvals" "length xvals < 4" "yvals \<noteq> []" "xvals ! 1 \<noteq> xvals ! 0"
  shows "f0_guess xvals yvals = Fin 0"
proof -
  obtain k where k: "k < length xvals div 2" and f: "f0_guess xvals yvals =
      np_abs (np_scale (int k) (np_recip (real (length xvals) * (xvals ! 1 - xvals ! 0))))"
    using f0_guess_bin [OF assms(1,3)] by blast
  have "length xvals div 2 = 1"
    using assms(1,2) by arith
  then have "k = 0"
    using k by simp
  moreover have "real (length xvals) * (xvals ! 1 - xvals ! 0) \<noteq> 0"
    using assms by auto
  ultimately show ?thesis
    using f by (simp add: np_recip_def)
qed

lemma freq_guess_short:
  assumes "2 \<le> length xvals" "length xvals < 4" "yvals \<noteq> []" "xvals ! 1 \<noteq> xvals ! 0"
  shows "freq_guess xvals yvals = Inl ValueError"
proof -
  have zero: "f0_guess xvals yvals = Fin 0"
    using assms by (rule f0_guess_short)
  have w: "length xvals div 4 = 0"
    using assms(2) by simp
  have "\<exists>smoothed. convolve_same yvals [0.5, 0.5] = Inr smoothed"
    by (rule convolve_same_returns) (use assms(3) in simp_all)
  then obtain smoothed where "convolve_same yvals [0.5, 0.5] = Inr smoothed"
    by blast
  then have "fallback xvals yvals = Inl ValueError"
    unfolding fallback_def w by (simp add: argrelmin_def)
  then show ?thesis
    using assms zero by (simp add: freq_guess_def)
qed

lemma freq_guess_returns:
  assumes "length xvals = length yvals" "4 \<le> length xvals"
  shows "\<exists>v. freq_guess xvals yvals = Inr v"
proof (cases "f0_guess xvals yvals = Fin 0")
  case True
  have "fallback xvals yvals = Inr (fallback_steps xvals yvals)"
    using fallback_eq [of yvals xvals] assms by simp
  then show ?thesis
    using assms True by (auto simp: freq_guess_def)
next
  case False
  then show ?thesis
    using assms by (auto simp: freq_guess_def)
qed

lemma zero_guess_follows_steps:
  assumes "length xvals = length yvals" "4 \<le> length xvals" "f0_guess xvals yvals = Fin 0"
  shows "freq_guess xvals yvals = Inr (fallback_steps xvals yvals)"
    and "length (moving_average yvals) = length yvals"
proof -
  have "yvals \<noteq> []"
    using assms by auto
  then have "freq_guess xvals yvals = fallback xvals yvals"
    using assms by (simp add: freq_guess_def)
  then show "freq_guess xvals yvals = Inr (fallback_steps xvals yvals)"
    using fallback_eq [of yvals xvals] assms by simp
  show "length (moving_average yvals) = length yvals"
    by (rule length_moving_average)
qed

lemma nonneg_of_freq_guess:
  assumes "valid_input xvals yvals" "freq_guess xvals yvals = Inr v"
    and "f0_guess xvals yvals \<noteq> Fin 0 \<or> 0 \<le> xvals ! 0"
  shows "nonneg v"
proof -
  have len: "length xvals = length yvals" "2 \<le> length xvals" and d: "xvals ! 1 \<noteq> xvals ! 0"
    using valid_inputD [OF assms(1)] by auto
  then have ne: "yvals \<noteq> []"
    by auto
  obtain r where r: "0 \<le> r" "f0_guess xvals yvals = Fin r"
    using f0_guess_finite [OF len(2) ne d] by blast
  show ?thesis
  proof (cases "f0_guess xvals yvals = Fin 0")
    case False
    then have "v = Fin r"
      using assms(2) len ne r by (simp add: freq_guess_def)
    then show ?thesis
      using r by simp
  next
    case True
    then have x0: "0 \<le> xvals ! 0"
      using assms(3) by simp
    have four: "4 \<le> length xvals"
    proof (rule ccontr)
      assume "\<not> 4 \<le> length xvals"
      then have "freq_guess xvals yvals = Inl ValueError"
        using freq_guess_short [OF len(2) _ ne d] by simp
      then show False
        using assms(2) by simp
    qed
    define peaks where "peaks = window_minima (length xvals div 4) (moving_average yvals)"
    have "v = fallback_steps xvals yvals"
      using zero_guess_follows_steps(1) [OF len(1) four True] assms(2) by simp
    then have v: "v = (if length peaks = 0 \<or> 4 < length peaks then Fin 0
                   else np_recip (2 * xvals ! (peaks ! 0)))"
      by (simp add: fallback_steps_def peaks_def)
    show ?thesis
    proof (cases "length peaks = 0 \<or> 4 < length peaks")
      case True
      then show ?thesis
        using v by simp
    next
      case False
      then have "peaks ! 0 \<in> set peaks"
        by simp
      then have "1 \<le> peaks ! 0" "peaks ! 0 < length xvals"
        using window_minima_interior [of "peaks ! 0" "length xvals div 4" "moving_average yvals"]
          len
        unfolding peaks_def by (simp_all add: length_moving_average)
      then have "xvals ! 0 < xvals ! (peaks ! 0)"
        by (rule valid_input_increasing [OF assms(1)])
      then have "0 < 2 * xvals ! (peaks ! 0)"
        using x0 by simp
      then show ?thesis
        using v False by (simp add: np_recip_def)
    qed
  qed
qed

section \<open>The estimator on the five cosine samples\<close>

text \<open>
  Over the real numbers the fallback can reach the period estimate. On the five samples
  \<open>y5\<close> the spectral guess is zero, the only local minimum of the smoothed samples is at
  index 2, and the result is \<open>1 / (2 * x[2])\<close>, whose sign is the sign of \<open>x[2]\<close>. The
  samples are irrational: this is a fact of exact real arithmetic, which the float64
  arithmetic of numpy only approximates.
\<close>

lemma upt5: "[0..<5] = [0,1,2,3,4]" by (simp add: upt_rec)

lemma cos_pi_5: "cos (pi / 5) = (1 + sqrt 5) / 4"
proof -
  let ?t = "pi / 5"
  let ?c = "cos ?t"
  let ?s = "sin ?t"
  have s_pos: "0 < ?s"
    by (rule sin_gt_zero) (use pi_gt_zero in simp_all)
  have "sin (2 * ?t) = sin (pi - 3 * ?t)"
    by (rule arg_cong [where f = sin]) simp
  also have "\<dots> = sin (2 * ?t + ?t)"
    unfolding sin_pi_minus by (rule arg_cong [where f = sin]) simp
  also have "\<dots> = sin (2 * ?t) * ?c + cos (2 * ?t) * ?s"
    by (rule sin_add)
  finally have "2 * ?s * ?c = 2 * ?s * ?c * ?c + (2 * ?c\<^sup>2 - 1) * ?s"
    unfolding sin_double cos_double_cos .
  then have "?s * (2 * ?c) = ?s * (4 * ?c\<^sup>2 - 1)"
    by (simp add: algebra_simps power2_eq_square)
  then have quad: "2 * ?c = 4 * ?c\<^sup>2 - 1"
    using s_pos by simp
  have "cos (pi / 3) < ?c"
    by (rule cos_monotone_0_pi) (use pi_gt_zero in simp_all)
  then have half: "1 / 2 < ?c"
    by (simp add: cos_60)
  have "(4 * ?c - 1)\<^sup>2 = 5"
    using quad by (simp add: power2_eq_square algebra_simps)
  then have "sqrt 5 = 4 * ?c - 1"
    by (rule real_sqrt_unique) (use half in simp)
  then show ?thesis
    by simp
qed

lemma cos_2pi_5: "cos (2 * pi / 5) = (sqrt 5 - 1) / 4"
proof -
  have "cos (2 * (pi / 5)) = 2 * (cos (pi / 5))\<^sup>2 - 1"
    by (rule cos_double_cos)
  then show ?thesis
    by (simp add: cos_pi_5 power2_eq_square algebra_simps)
qed

lemma cos_4pi_5: "cos (4 * pi / 5) = - (sqrt 5 + 1) / 4"
proof -
  have "cos (4 * pi / 5) = cos (2 * (2 * pi / 5))"
    by (rule arg_cong [where f = cos]) simp
  also have "\<dots> = 2 * ((sqrt 5 - 1) / 4)\<^sup>2 - 1"
    unfolding cos_double_cos cos_2pi_5 ..
  also have "\<dots> = - (sqrt 5 + 1) / 4"
    by (simp add: power2_eq_square field_simps)
  finally show ?thesis .
qed

lemma twiddle_5:
  "twiddle 5 0 = 1"
  "twiddle 5 (Suc 0) = Complex ((sqrt 5 - 1) / 4) (- sin (2 * pi / 5))"
  "twiddle 5 2 = Complex (- (sqrt 5 + 1) / 4) (- sin (4 * pi / 5))"
  "twiddle 5 3 = Complex (- (sqrt 5 + 1) / 4) (sin (4 * pi / 5))"
  "twiddle 5 4 = Complex ((sqrt 5 - 1) / 4) (sin (2 * pi / 5))"
proof -
  show "twiddle 5 0 = 1"
    by (simp add: twiddle_def)
  show "twiddle 5 (Suc 0) = Complex ((sqrt 5 - 1) / 4) (- sin (2 * pi / 5))"
    by (simp add: twiddle_def complex_eq_iff cos_2pi_5)
  show "twiddle 5 2 = Complex (- (sqrt 5 + 1) / 4) (- sin (4 * pi / 5))"
    using cos_4pi_5 by (simp add: twiddle_def complex_eq_iff)
  have c6: "cos (6 * pi / 5) = cos (4 * pi / 5)" and s6: "sin (6 * pi / 5) = - sin (4 * pi / 5)"
    using cos_2pi_minus [of "4 * pi / 5"] sin_2pi_minus [of "4 * pi / 5"] by simp_all
  have c8: "cos (8 * pi / 5) = cos (2 * pi / 5)" and s8: "sin (8 * pi / 5) = - sin (2 * pi / 5)"
    using cos_2pi_minus [of "2 * pi / 5"] sin_2pi_minus [of "2 * pi / 5"] by simp_all
  show "twiddle 5 3 = Complex (- (sqrt 5 + 1) / 4) (sin (4 * pi / 5))"
    using c6 s6 cos_4pi_5 by (simp add: twiddle_def complex_eq_iff)
  show "twiddle 5 4 = Complex ((sqrt 5 - 1) / 4) (sin (2 * pi / 5))"
    using c8 s8 cos_2pi_5 by (simp add: twiddle_def complex_eq_iff)
qed

lemma mean_y5: "mean y5 = 0"
  by (simp add: mean_def y5_def)

lemma spectrum_y5:
  "take (5 div 2) (fft (map (\<lambda>y. y - mean y5) y5)) = [0, 0]"
proof -
  have c: "map (\<lambda>y. y - mean y5) y5 = y5"
    by (simp add: mean_y5)
  have "take 2 (map f [0..<5]) = [f 0, f 1]" for f :: "nat \<Rightarrow> complex"
    by (simp add: upt_rec)
  moreover have "(\<Sum>m\<leftarrow>[0..<5]. of_real (y5 ! m) * twiddle 5 (m * 0)) = 0"
    by (simp add: upt5 y5_def twiddle_5)
  moreover have "(\<Sum>m\<leftarrow>[0..<5]. of_real (y5 ! m) * twiddle 5 (m * 1)) = 0"
    by (simp add: upt5 y5_def twiddle_5 complex_eq_iff algebra_simps)
  moreover have "length y5 = 5"
    by (simp add: y5_def)
  ultimately show ?thesis
    unfolding c by (simp add: fft_def)
qed

lemma sqrt5_bounds: "2 < sqrt 5" "sqrt 5 < 3"
proof -
  show "2 < sqrt 5"
    by (rule real_less_rsqrt) simp
  show "sqrt 5 < 3"
    by (rule real_less_lsqrt) simp_all
qed

lemma smoothed_y5:
  "convolve_same y5 [0.5, 0.5] = Inr [2, (3 - sqrt 5) / 2, - 1, sqrt 5 - 1, - 1]"
proof -
  have "moving_average y5 = [2, (3 - sqrt 5) / 2, - 1, sqrt 5 - 1, - 1]"
    by (simp add: moving_average_def y5_def upt5 field_simps)
  moreover have "2 \<le> length y5"
    by (simp add: y5_def)
  ultimately show ?thesis
    using convolve_same_moving_average [of y5] by simp
qed

lemma peaks_y5:
  "argrelmin [2, (3 - sqrt 5) / 2, - 1, sqrt 5 - 1, - 1] 1 = Inr [2]"
  using sqrt5_bounds
  by (simp add: argrelmin_def nonzero_def shift_step_def clip_take_def upt5 Let_def)

lemma f0_guess_y5:
  assumes "length xvals = 5" "xvals ! 1 \<noteq> xvals ! 0"
  shows "f0_guess xvals y5 = Fin 0"
  using assms spectrum_y5
  by (simp add: f0_guess_def Let_def length_fftfreq argmax_def fftfreq_nth np_recip_def)

lemma freq_guess_y5:
  assumes "length xvals = 5" "xvals ! 1 \<noteq> xvals ! 0"
  shows "freq_guess xvals y5 = Inr (np_recip (2 * xvals ! 2))"
proof -
  have "y5 \<noteq> []"
    by (simp add: y5_def)
  then show ?thesis
    using assms smoothed_y5 peaks_y5
    by (simp add: freq_guess_def f0_guess_y5 fallback_def)
qed

lemma valid_five:
  "valid_input [0, 1, 2, 3, 4] [4, - 1 - sqrt 5, sqrt 5 - 1, sqrt 5 - 1, - 1 - sqrt 5]"
  by (simp add: valid_input_def upt_rec)

section \<open>Properties of the frequency estimator\<close>

text \<open>
  C1 says that \<open>_freq_guess\<close> never raises on a valid input. With two or three samples it
  does: the slice of the spectrum has the single bin 0, so the spectral guess is 0, the
  fallback calls \<open>argrelmin\<close> with \<open>order = 0\<close>, and scipy raises \<open>ValueError\<close>. The
  theorem evaluates the model at two valid inputs, one of each length.
\<close>

theorem freq_guess_raises_below_four_samples:
  "valid_input [0, 1] [0, 0] \<and> freq_guess [0, 1] [0, 0] = Inl ValueError \<and>
   valid_input [0, 1, 2] [1, 0, 1] \<and> freq_guess [0, 1, 2] [1, 0, 1] = Inl ValueError"
proof -
  have "valid_input [0, 1] [0, 0]" "valid_input [0, 1, 2] [1, 0, 1]"
    by (simp_all add: valid_input_def upt_rec)
  moreover have "freq_guess [0, 1] [0, 0] = Inl ValueError"
    by (rule freq_guess_short) simp_all
  moreover have "freq_guess [0, 1, 2] [1, 0, 1] = Inl ValueError"
    by (rule freq_guess_short) simp_all
  ultimately show ?thesis
    by simp
qed

text \<open>
  C2 says that, whenever the spectral guess is exactly zero, \<open>_freq_guess\<close> follows the
  fallback steps: it smooths the samples with the two-tap average, searches the local minima
  with a window of \<open>len(x) // 4\<close> samples, and returns 0 or \<open>1 / (2 * x[first minimum])\<close>.
  With two or three samples the spectral guess is zero and the steps give a value (0 at
  \<open>x = [0, 1]\<close>, \<open>y = [1, 3]\<close>, and \<open>1 / (2 * x[1]) = 1 / 2\<close> at \<open>x = [0, 1, 2]\<close>,
  \<open>y = [1, 0, 1]\<close>), but the code calls \<open>argrelmin\<close> with \<open>order = 0\<close> and raises
  \<open>ValueError\<close>. From four samples on the code does follow the steps
  (\<open>zero_guess_follows_steps\<close>).
\<close>

theorem fallback_raises_where_steps_return:
  "valid_input [0, 1] [1, 3] \<and> f0_guess [0, 1] [1, 3] = Fin 0 \<and>
   fallback_steps [0, 1] [1, 3] = Fin 0 \<and> freq_guess [0, 1] [1, 3] = Inl ValueError \<and>
   valid_input [0, 1, 2] [1, 0, 1] \<and> f0_guess [0, 1, 2] [1, 0, 1] = Fin 0 \<and>
   fallback_steps [0, 1, 2] [1, 0, 1] = Fin (1 / 2) \<and>
   freq_guess [0, 1, 2] [1, 0, 1] = Inl ValueError"
proof -
  have "valid_input [0, 1] [1, 3]" "valid_input [0, 1, 2] [1, 0, 1]"
    by (simp_all add: valid_input_def upt_rec)
  moreover have "f0_guess [0, 1] [1, 3] = Fin 0" "f0_guess [0, 1, 2] [1, 0, 1] = Fin 0"
    by (rule f0_guess_short; simp)+
  moreover have "fallback_steps [0, 1] [1, 3] = Fin 0"
    by (simp add: fallback_steps_def window_minima_def moving_average_def upt_rec)
  moreover have "fallback_steps [0, 1, 2] [1, 0, 1] = Fin (1 / 2)"
    by (simp add: fallback_steps_def window_minima_def moving_average_def upt_rec np_recip_def)
  moreover have "freq_guess [0, 1] [1, 3] = Inl ValueError"
    "freq_guess [0, 1, 2] [1, 0, 1] = Inl ValueError"
    by (rule freq_guess_short; simp)+
  ultimately show ?thesis
    by simp
qed

text \<open>
  C10. Whenever the fallback reaches the period estimate (it found between one and four
  minima), the first minimum is at index 1 or later; for a valid input with \<open>x[0] = 0\<close>
  the divisor \<open>2 * x[peaks[0]]\<close> is then not zero and the fallback returns the finite value
  \<open>1 / (2 * x[peaks[0]])\<close>.
\<close>

theorem first_minimum_after_first_sample:
  assumes "convolve_same yvals [0.5, 0.5] = Inr smoothed"
    and "argrelmin smoothed (length xvals div 4) = Inr peaks"
    and "\<not> (length peaks = 0 \<or> 4 < length peaks)"
  shows "1 \<le> peaks ! 0 \<and>
         (valid_input xvals yvals \<and> xvals ! 0 = 0 \<longrightarrow>
            2 * xvals ! (peaks ! 0) \<noteq> 0 \<and>
            fallback xvals yvals = Inr (Fin (1 / (2 * xvals ! (peaks ! 0)))))"
proof -
  have "peaks ! 0 \<in> set peaks"
    using assms(3) by simp
  then have interior: "1 \<le> peaks ! 0" "peaks ! 0 + 1 < length smoothed"
    using argrelmin_interior [OF assms(2)] by blast+
  have "2 * xvals ! (peaks ! 0) \<noteq> 0 \<and>
        fallback xvals yvals = Inr (Fin (1 / (2 * xvals ! (peaks ! 0))))"
    if valid: "valid_input xvals yvals" and zero: "xvals ! 0 = 0"
  proof -
    have len: "length xvals = length yvals" "2 \<le> length xvals"
      by (rule valid_inputD [OF valid])+
    then have "2 \<le> length yvals"
      by simp
    then have "convolve_same yvals [0.5, 0.5] = Inr (moving_average yvals)"
      by (rule convolve_same_moving_average)
    then have "smoothed = moving_average yvals"
      using assms(1) by simp
    then have p: "peaks ! 0 < length xvals"
      using interior(2) len by (simp add: length_moving_average)
    have "xvals ! 0 < xvals ! (peaks ! 0)"
      by (rule valid_input_increasing [OF valid interior(1) p])
    then have pos: "0 < 2 * xvals ! (peaks ! 0)"
      using zero by simp
    have "fallback xvals yvals = Inr (np_recip (2 * xvals ! (peaks ! 0)))"
      unfolding fallback_def assms(1) using assms(2,3) p by simp
    then show ?thesis
      using pos by (simp add: np_recip_def)
  qed
  then show ?thesis
    using interior(1) by blast
qed

theorem first_minimum_after_first_sample_witness:
  "convolve_same [4, - 1 - sqrt 5, sqrt 5 - 1, sqrt 5 - 1, - 1 - sqrt 5] [0.5, 0.5] =
     Inr [2, (3 - sqrt 5) / 2, - 1, sqrt 5 - 1, - 1] \<and>
   argrelmin [2, (3 - sqrt 5) / 2, - 1, sqrt 5 - 1, - 1] (length [0, 1, 2, 3, 4 :: real] div 4) =
     Inr [2] \<and>
   valid_input [0, 1, 2, 3, 4] [4, - 1 - sqrt 5, sqrt 5 - 1, sqrt 5 - 1, - 1 - sqrt 5] \<and>
   (1 :: nat) \<le> [2] ! 0 \<and>
   fallback [0, 1, 2, 3, 4] [4, - 1 - sqrt 5, sqrt 5 - 1, sqrt 5 - 1, - 1 - sqrt 5] =
     Inr (Fin (1 / 4))"
  using first_minimum_after_first_sample [of
      "[4, - 1 - sqrt 5, sqrt 5 - 1, sqrt 5 - 1, - 1 - sqrt 5]"
      "[2, (3 - sqrt 5) / 2, - 1, sqrt 5 - 1, - 1]" "[0, 1, 2, 3, 4]" "[2]"]
    smoothed_y5 peaks_y5 valid_five
  by (simp add: y5_def)

section \<open>Properties of \<open>initial_guess\<close>\<close>

lemma length_linspace: "length (linspace start stop num) = num"
  by (simp add: linspace_def Let_def)

lemma linspace_nth:
  assumes "1 < num" "i < num"
  shows "linspace start stop num ! i =
           (if i = num - 1 then stop else real i * ((stop - start) / real (num - 1)) + start)"
  using assms by (simp add: linspace_def Let_def nth_list_update)

lemma np_max_Max:
  assumes "a \<noteq> []"
  shows "np_max a = Max (set a)"
proof (cases a)
  case Nil
  then show ?thesis using assms by simp
next
  case (Cons x xs)
  have "Max (set (x # xs)) = fold max xs x"
    by (rule Max.set_eq_fold)
  then show ?thesis
    unfolding Cons np_max_def by simp
qed

lemma initial_guess_vectors:
  assumes "length xvals = length yvals" "4 \<le> length xvals"
  shows "\<exists>f0. freq_guess xvals yvals = Inr f0 \<and>
           initial_guess xvals yvals =
             Inr (map (\<lambda>phi. (Max (set (map abs yvals)) - \<bar>mean yvals\<bar>, py_max0 f0, phi, mean yvals))
                    (linspace (- pi) pi 10))"
proof -
  obtain f0 where f0: "freq_guess xvals yvals = Inr f0"
    using freq_guess_returns [OF assms] by blast
  have ne: "yvals \<noteq> []"
    using assms by auto
  then have "np_max (map abs yvals) = Max (set (map abs yvals))"
    by (simp add: np_max_Max)
  then show ?thesis
    using f0 ne by (simp add: initial_guess_def Let_def)
qed

lemma phase_sweep:
  "length (linspace (- pi) pi 10) = 10"
  "linspace (- pi) pi 10 ! 0 = - pi"
  "linspace (- pi) pi 10 ! 9 = pi"
  "i < 10 \<Longrightarrow> linspace (- pi) pi 10 ! i = - pi + real i * (2 * pi / 9)"
proof -
  show "length (linspace (- pi) pi 10) = 10"
    by (rule length_linspace)
  show "linspace (- pi) pi 10 ! 0 = - pi"
    by (simp add: linspace_nth)
  show "linspace (- pi) pi 10 ! 9 = pi"
    by (simp add: linspace_nth)
  show "linspace (- pi) pi 10 ! i = - pi + real i * (2 * pi / 9)" if "i < 10"
  proof (cases "i = 9")
    case True
    then show ?thesis by (simp add: linspace_nth)
  next
    case False
    then show ?thesis using that by (simp add: linspace_nth)
  qed
qed

text \<open>
  C4 says that \<open>initial_guess\<close> yields ten vectors for every input of at least two samples.
  With two samples \<open>_freq_guess\<close> raises \<open>ValueError\<close> (see C1) before the first vector
  is produced. With four or more samples the ten vectors are as C4 describes them
  (\<open>initial_guess_vectors\<close> and \<open>phase_sweep\<close>).
\<close>

theorem initial_guess_raises_below_four_samples:
  "length [0, 1 :: real] = length [1, 3 :: real] \<and> initial_guess [0, 1] [1, 3] = Inl ValueError"
proof -
  have "freq_guess [0, 1] [1, 3] = Inl ValueError"
    by (rule freq_guess_short) simp_all
  then show ?thesis
    by (simp add: initial_guess_def Let_def)
qed

end
